theory Spec2Isabelle
  imports Complex_Main
begin

section \<open>Python values used by \<open>labelme/shape.py\<close>\<close>

text \<open>
  The exceptions the modelled methods can raise. \<open>NoPointError\<close> is the class declared at
  the top of \<open>shape.py\<close>; the others are Python built-ins.
\<close>

datatype error = IndexError | OverflowError | NoPointError | AssertionError | ValueError | TypeError

text \<open>
  Python list indexing \<open>xs[i]\<close>: a negative index counts from the end, and an index outside
  \<open>[-len, len)\<close> raises \<open>IndexError\<close>.
\<close>

definition py_norm :: "'a list \<Rightarrow> int \<Rightarrow> int" where
  "py_norm xs i = (if i < 0 then i + int (length xs) else i)"

definition py_in_range :: "'a list \<Rightarrow> int \<Rightarrow> bool" where
  "py_in_range xs i = (0 \<le> py_norm xs i \<and> py_norm xs i < int (length xs))"

definition py_get :: "'a list \<Rightarrow> int \<Rightarrow> error + 'a" where
  "py_get xs i = (if py_in_range xs i then Inr (xs ! nat (py_norm xs i)) else Inl IndexError)"

text \<open>\<open>xs[i] = v\<close>: same index rule as reading.\<close>

definition py_set :: "'a list \<Rightarrow> int \<Rightarrow> 'a \<Rightarrow> error + 'a list" where
  "py_set xs i v = (if py_in_range xs i then Inr (xs[nat (py_norm xs i) := v]) else Inl IndexError)"

text \<open>
  \<open>list.insert\<close> and \<open>list.pop\<close> convert their index argument to a machine index before they
  look at the list, and raise \<open>OverflowError\<close> when it does not fit in 64 signed bits.
\<close>

definition Py_ssize_t :: "int \<Rightarrow> bool" where
  "Py_ssize_t i = (- (2 ^ 63) \<le> i \<and> i < 2 ^ 63)"

text \<open>
  \<open>xs.insert(i, v)\<close>: an index that is not index-sized raises \<open>OverflowError\<close>. Otherwise a
  negative index counts from the end, and the resulting position is clamped to \<open>[0, len]\<close>. A
  Python list holds fewer than \<open>2 ^ 63\<close> elements, so a position between \<open>0\<close> and the length of
  the list is always index-sized; the second disjunct says so for the lists of the model, whose
  length is not bounded.
\<close>

definition py_insert :: "'a list \<Rightarrow> int \<Rightarrow> 'a \<Rightarrow> error + 'a list" where
  "py_insert xs i v =
     (if Py_ssize_t i \<or> (0 \<le> i \<and> i \<le> int (length xs)) then
        (let k = nat (min (max (py_norm xs i) 0) (int (length xs)))
         in Inr (take k xs @ [v] @ drop k xs))
      else Inl OverflowError)"

text \<open>
  \<open>xs.pop(i)\<close>: \<open>OverflowError\<close> for an index that is not index-sized; otherwise the removed
  element and the shorter list, or \<open>IndexError\<close> for an index outside \<open>[-len, len)\<close>.
\<close>

definition py_pop :: "'a list \<Rightarrow> int \<Rightarrow> error + ('a \<times> 'a list)" where
  "py_pop xs i =
     (if \<not> Py_ssize_t i then Inl OverflowError
      else if py_in_range xs i
      then Inr (xs ! nat (py_norm xs i), take (nat (py_norm xs i)) xs @ drop (Suc (nat (py_norm xs i))) xs)
      else Inl IndexError)"

section \<open>The Shape object\<close>

text \<open>
  \<open>shape_type\<close> is a string that the property setter restricts to seven values; a value
  outside them raises \<open>ValueError\<close>, and \<open>None\<close> stands for \<open>'polygon'\<close>.
\<close>

datatype shape_kind = polygon | rectangle | point | line | circle | linestrip | curve

definition shape_type_setter :: "string option \<Rightarrow> error + shape_kind" where
  "shape_type_setter v =
     (let s = (case v of None \<Rightarrow> ''polygon'' | Some t \<Rightarrow> t) in
      if s = ''polygon'' then Inr polygon
      else if s = ''rectangle'' then Inr rectangle
      else if s = ''point'' then Inr point
      else if s = ''line'' then Inr line
      else if s = ''circle'' then Inr circle
      else if s = ''linestrip'' then Inr linestrip
      else if s = ''curve'' then Inr curve
      else Inl ValueError)"

text \<open>
  The fields of \<open>Shape\<close> that the store, the segment builder and the geometry read or write.
  The element type of \<open>points\<close> is a parameter: the builder only compares points with \<open>==\<close>
  and moves them around. A segment is the two-element list \<open>[seg_begin, seg_len]\<close>.
\<close>

record 'p Shape =
  points :: "'p list"
  segments :: "(int \<times> int) list"
  points_in_segments :: int
  shape_type :: shape_kind
  closed :: bool

definition QUADRATIC_BEZIER_ORDER :: int where
  "QUADRATIC_BEZIER_ORDER = 2"

definition CUBIC_BEZIER_ORDER :: int where
  "CUBIC_BEZIER_ORDER = 3"

text \<open>\<open>Shape.__init__\<close>: no points, no segments, counter 0, not closed.\<close>

definition init_Shape :: "shape_kind \<Rightarrow> 'p Shape" where
  "init_Shape k = \<lparr>points = [], segments = [], points_in_segments = 0, shape_type = k, closed = False\<rparr>"

definition close :: "'p Shape \<Rightarrow> 'p Shape" where
  "close sh = sh\<lparr>closed := True\<rparr>"

definition setOpen :: "'p Shape \<Rightarrow> 'p Shape" where
  "setOpen sh = sh\<lparr>closed := False\<rparr>"

definition isClosed :: "'p Shape \<Rightarrow> bool" where
  "isClosed sh = closed sh"

section \<open>Point/segment store\<close>

definition addSegment :: "int \<Rightarrow> int \<Rightarrow> 'p Shape \<Rightarrow> 'p Shape" where
  "addSegment seg_begin seg_len sh =
     (let n = (if length (segments sh) = 0 then 0 + seg_len
               else points_in_segments sh + (seg_len - 1))
      in sh\<lparr>points_in_segments := n, segments := segments sh @ [(seg_begin, seg_len)]\<rparr>)"

definition addPointToSegment :: "int \<Rightarrow> 'p Shape \<Rightarrow> error + 'p Shape" where
  "addPointToSegment seg_id sh =
     (case py_get (segments sh) seg_id of
        Inl e \<Rightarrow> Inl e
      | Inr (b, l) \<Rightarrow>
          (case py_set (segments sh) seg_id (b, l + 1) of
             Inl e \<Rightarrow> Inl e
           | Inr ss \<Rightarrow> Inr (sh\<lparr>segments := ss\<rparr>)))"

definition insertPoint :: "int \<Rightarrow> 'p \<Rightarrow> 'p Shape \<Rightarrow> error + 'p Shape" where
  "insertPoint i p sh =
     (case py_insert (points sh) i p of
        Inl e \<Rightarrow> Inl e
      | Inr ps \<Rightarrow> Inr (sh\<lparr>points := ps\<rparr>))"


definition popPoint :: "'p Shape \<Rightarrow> 'p option \<times> 'p Shape" where
  "popPoint sh =
     (if points sh \<noteq> [] then (Some (last (points sh)), sh\<lparr>points := butlast (points sh)\<rparr>)
      else (None, sh))"

definition canAddPoint :: "'p Shape \<Rightarrow> bool" where
  "canAddPoint sh = (shape_type sh = polygon \<or> shape_type sh = linestrip)"

section \<open>Segment builder\<close>

text \<open>
  \<open>createSegment(point, degree_increment, new_p)\<close>. The comparison with
  \<open>self.points[-1]\<close> is evaluated first and raises \<open>IndexError\<close> on an empty list.
\<close>

definition createSegment :: "'p \<Rightarrow> int \<Rightarrow> 'p \<Rightarrow> 'p Shape \<Rightarrow> error + 'p Shape" where
  "createSegment pt degree_increment new_p sh =
     (case py_get (points sh) (- 1) of
        Inl e \<Rightarrow> Inl e
      | Inr lst \<Rightarrow>
          if pt = lst then
            (let size = QUADRATIC_BEZIER_ORDER + degree_increment;
                 seg_begin = int (length (points sh)) - size;
                 seg_len = size
             in Inr (addSegment seg_begin seg_len sh))
          else
            (let size = CUBIC_BEZIER_ORDER + degree_increment in
             case insertPoint (max (int (length (points sh)) - 1) 1) new_p sh of
               Inl e \<Rightarrow> Inl e
             | Inr sh1 \<Rightarrow>
                 (let seg_begin = int (length (points sh1)) - size;
                      seg_len = size;
                      sh2 = sh1\<lparr>points := points sh1 @ [pt]\<rparr>
                  in Inr (addSegment seg_begin seg_len sh2))))"

text \<open>
  The release branch of \<open>addPoint\<close>, after the two one-point cases: the \<open>try\<close> block. Its
  handler turns a \<open>NoPointError\<close> into the failed assertion \<open>"new_p is empty !!!"\<close>; any
  other exception propagates.
\<close>

definition addPoint_try :: "'p \<Rightarrow> 'p \<Rightarrow> 'p Shape \<Rightarrow> error + 'p Shape" where
  "addPoint_try pt new_p sh =
     (let degree_increment = max (int (length (points sh)) - points_in_segments sh - 1) 0 in
      case createSegment pt degree_increment new_p sh of
        Inl e \<Rightarrow> (if e = NoPointError then Inl AssertionError else Inl e)
      | Inr sh1 \<Rightarrow>
          (case py_get (points sh1) 0 of
             Inl e \<Rightarrow> (if e = NoPointError then Inl AssertionError else Inl e)
           | Inr p0 \<Rightarrow>
               if pt = p0 then
                 (case py_pop (points sh1) (- 1) of
                    Inl e \<Rightarrow> (if e = NoPointError then Inl AssertionError else Inl e)
                  | Inr (_, ps) \<Rightarrow> Inr (close (sh1\<lparr>points := ps\<rparr>)))
               else Inr sh1))"

definition addPoint :: "'p \<Rightarrow> bool \<Rightarrow> 'p \<Rightarrow> 'p Shape \<Rightarrow> error + 'p Shape" where
  "addPoint pt is_release new_p sh =
     (if is_release \<and> shape_type sh = curve then
        (case py_get (points sh) (- 1) of
           Inl e \<Rightarrow> Inl e
         | Inr lst \<Rightarrow>
             if pt = lst \<and> length (points sh) = 1 then
               Inr (sh\<lparr>points_in_segments := points_in_segments sh + 1\<rparr>)
             else if length (segments sh) = 0 \<and> length (points sh) = 1 then
               Inr (sh\<lparr>points := points sh @ [pt],
                        points_in_segments := points_in_segments sh + 1\<rparr>)
             else addPoint_try pt new_p sh)
      else
        (if points sh \<noteq> [] \<and> pt = hd (points sh) then
           (let degree_increment = max (int (length (points sh)) - points_in_segments sh) 0 in
            if shape_type sh = curve \<and> degree_increment = 1 then
              (let size = QUADRATIC_BEZIER_ORDER + degree_increment;
                   seg_begin = int (length (points sh)) - size + 1;
                   seg_len = size
               in Inr (close (addSegment seg_begin seg_len sh)))
            else Inr (close sh))
         else Inr (sh\<lparr>points := points sh @ [pt]\<rparr>)))"

text \<open>
  A caller that omits \<open>new_p\<close> passes the default, the integer \<open>0\<close>, so the point list can
  hold an integer beside point objects. \<open>pyobj\<close> is the element type for that situation.
\<close>

datatype 'p pyobj = Obj 'p | PyInt int

definition addPoint_default :: "'p pyobj \<Rightarrow> bool \<Rightarrow> 'p pyobj Shape \<Rightarrow> error + 'p pyobj Shape" where
  "addPoint_default pt is_release sh = addPoint pt is_release (PyInt 0) sh"

text \<open>Recording a run of segments, one \<open>addSegment\<close> call after the other.\<close>

fun addSegments :: "(int \<times> int) list \<Rightarrow> 'p Shape \<Rightarrow> 'p Shape" where
  "addSegments [] sh = sh"
| "addSegments ((b, l) # rest) sh = addSegments rest (addSegment b l sh)"

section \<open>Points\<close>

text \<open>
  \<open>QPointF\<close> is the host toolkit's point: two coordinates, with componentwise \<open>+\<close> and \<open>-\<close>.
  Coordinates are real numbers here; rounding and the toolkit's tolerance in \<open>==\<close> are not
  modelled.
\<close>

datatype QPointF = QPointF (qx: real) (qy: real)

definition QPointF_add :: "QPointF \<Rightarrow> QPointF \<Rightarrow> QPointF" where
  "QPointF_add p q = QPointF (qx p + qx q) (qy p + qy q)"

definition QPointF_sub :: "QPointF \<Rightarrow> QPointF \<Rightarrow> QPointF" where
  "QPointF_sub p q = QPointF (qx p - qx q) (qy p - qy q)"

definition moveBy :: "QPointF \<Rightarrow> QPointF Shape \<Rightarrow> QPointF Shape" where
  "moveBy offset sh = sh\<lparr>points := map (\<lambda>p. QPointF_add p offset) (points sh)\<rparr>"


text \<open>
  A segment \<open>[seg_begin, seg_len]\<close> refers to the points at \<open>seg_begin\<close>, ...,
  \<open>seg_begin + seg_len - 1\<close>, as \<open>drawSegment\<close> reads them; this is the last of them, for the
  segment recorded last.
\<close>

definition segment_final_point :: "'p Shape \<Rightarrow> error + 'p" where
  "segment_final_point sh =
     (case py_get (segments sh) (- 1) of
        Inl e \<Rightarrow> Inl e
      | Inr (b, l) \<Rightarrow> py_get (points sh) (b + l - 1))"

section \<open>Path materializer\<close>

text \<open>
  A path is the sequence of calls made on the toolkit's \<open>QPainterPath\<close>. \<open>QRectF x y w h\<close> is
  the toolkit's rectangle: a corner and two extents, which may be negative.
\<close>

datatype QRectF = QRectF (rx: real) (ry: real) (rw: real) (rh: real)

datatype pathop =
    MoveTo QPointF
  | LineTo QPointF
  | QuadTo QPointF QPointF
  | CubicTo QPointF QPointF QPointF
  | AddRect QRectF
  | AddEllipse QRectF
  | AddPolygon "QPointF list"
  | Simplified


definition getRectFromLine :: "QPointF \<Rightarrow> QPointF \<Rightarrow> QRectF" where
  "getRectFromLine pt1 pt2 =
     (let x1 = qx pt1; y1 = qy pt1; x2 = qx pt2; y2 = qy pt2
      in QRectF x1 y1 (x2 - x1) (y2 - y1))"

definition getCircleRectFromLine :: "QPointF list \<Rightarrow> QRectF option" where
  "getCircleRectFromLine pts =
     (if length pts \<noteq> 2 then None
      else (let c = pts ! 0;
                r = QPointF_sub (pts ! 0) (pts ! 1);
                d = sqrt ((qx r) ^ 2 + (qy r) ^ 2)
            in Some (QRectF (qx c - d) (qy c - d) (2 * d) (2 * d))))"

text \<open>
  \<open>makePath\<close>: the path that \<open>containsPoint\<close> and \<open>boundingRect\<close> use. Only \<open>'rectangle'\<close> and
  \<open>'circle'\<close> have a branch of their own; every other shape type, \<open>'curve'\<close> included, starts
  the path at \<open>self.points[0]\<close> and draws a line to each later point. The start point given
  to the constructor of the path is its first \<open>MoveTo\<close>.
\<close>

definition makePath :: "QPointF Shape \<Rightarrow> error + pathop list" where
  "makePath sh =
     (if shape_type sh = rectangle then
        (if length (points sh) = 2
         then Inr [AddRect (getRectFromLine (points sh ! 0) (points sh ! 1))]
         else Inr [])
      else if shape_type sh = circle then
        (if length (points sh) = 2
         then (case getCircleRectFromLine (points sh) of
                 None \<Rightarrow> Inl TypeError
               | Some r \<Rightarrow> Inr [AddEllipse r])
         else Inr [])
      else
        (case py_get (points sh) 0 of
           Inl e \<Rightarrow> Inl e
         | Inr p0 \<Rightarrow> Inr (MoveTo p0 # map LineTo (tl (points sh)))))"

text \<open>Sequencing of calls that may raise: the first exception ends the computation.\<close>

definition py_bind :: "error + 'a \<Rightarrow> ('a \<Rightarrow> error + 'b) \<Rightarrow> error + 'b" where
  "py_bind r f = (case r of Inl e \<Rightarrow> Inl e | Inr v \<Rightarrow> f v)"

text \<open>\<open>drawSegment\<close>: the calls it makes on the path for one segment.\<close>

definition drawSegment :: "QPointF list \<Rightarrow> int \<times> int \<Rightarrow> error + pathop list" where
  "drawSegment ps segment =
     (let beg_p_ind = fst segment in
      if snd segment = 4 then
        py_bind (py_get ps (beg_p_ind + 1)) (\<lambda>a.
        py_bind (py_get ps (beg_p_ind + 2)) (\<lambda>b.
        py_bind (py_get ps (beg_p_ind + 3)) (\<lambda>c. Inr [CubicTo a b c])))
      else if snd segment = 3 then
        (if int (length ps) \<ge> fst segment + snd segment then
           py_bind (py_get ps (beg_p_ind + 1)) (\<lambda>a.
           py_bind (py_get ps (beg_p_ind + 2)) (\<lambda>b. Inr [QuadTo a b]))
         else
           py_bind (py_get ps (beg_p_ind + 1)) (\<lambda>a.
           py_bind (py_get ps 0) (\<lambda>b. Inr [QuadTo a b])))
      else py_bind (py_get ps (beg_p_ind + 1)) (\<lambda>a. Inr [LineTo a]))"

text \<open>
  The loop over \<open>self.segments\<close> in \<open>paint\<close>: the calls on \<open>line_path\<close> and the list \<open>pts\<close> of
  the segments' first points.
\<close>

fun draw_segments :: "QPointF list \<Rightarrow> (int \<times> int) list \<Rightarrow> error + (pathop list \<times> QPointF list)" where
  "draw_segments ps [] = Inr ([], [])"
| "draw_segments ps (s # ss) =
     py_bind (py_get ps (fst s)) (\<lambda>p.
     py_bind (drawSegment ps s) (\<lambda>d.
     py_bind (draw_segments ps ss) (\<lambda>(ops, pts). Inr (MoveTo p # d @ ops, p # pts))))"

text \<open>
  \<open>paint\<close>, as far as it builds \<open>line_path\<close>, the path it draws and fills: \<open>None\<close> when the
  point list is empty and nothing is painted. The vertex markers and the pens are left out.
\<close>

definition paint_line_path :: "QPointF Shape \<Rightarrow> error + pathop list option" where
  "paint_line_path sh =
     (if points sh = [] then Inr None
      else if shape_type sh = rectangle then
        (if length (points sh) \<noteq> 1 \<and> length (points sh) \<noteq> 2 then Inl AssertionError
         else if length (points sh) = 2
         then Inr (Some [AddRect (getRectFromLine (points sh ! 0) (points sh ! 1))])
         else Inr (Some []))
      else if shape_type sh = circle then
        (if length (points sh) \<noteq> 1 \<and> length (points sh) \<noteq> 2 then Inl AssertionError
         else if length (points sh) = 2
         then (case getCircleRectFromLine (points sh) of
                 None \<Rightarrow> Inl TypeError
               | Some r \<Rightarrow> Inr (Some [AddEllipse r]))
         else Inr (Some []))
      else if shape_type sh = linestrip then
        Inr (Some (MoveTo (hd (points sh)) # map LineTo (points sh)))
      else if shape_type sh = curve then
        py_bind (draw_segments (points sh) (segments sh)) (\<lambda>(ops, pts).
          Inr (Some (MoveTo (hd (points sh)) # ops
                     @ (if isClosed sh then [LineTo (hd (points sh)), AddPolygon pts, Simplified]
                        else []))))
      else
        Inr (Some (MoveTo (hd (points sh)) # map LineTo (points sh)
                   @ (if isClosed sh then [LineTo (hd (points sh))] else []))))"

section \<open>The toolkit's containment test and bounding box\<close>

text \<open>
  The toolkit keeps a path as a list of elements and decides containment by the odd-even
  rule: it counts the edges that a horizontal ray from the query point crosses, closing every
  subpath, after a test against the box of all element points. This is modelled for paths made
  of straight lines and rectangles; for a path with a curve or an ellipse the result is \<open>None\<close>,
  not modelled.
\<close>

datatype element = MoveToElement QPointF | LineToElement QPointF

definition rect_elements :: "QRectF \<Rightarrow> element list" where
  "rect_elements r =
     (if rw r = 0 \<and> rh r = 0 then []
      else [MoveToElement (QPointF (rx r) (ry r)),
            LineToElement (QPointF (rx r + rw r) (ry r)),
            LineToElement (QPointF (rx r + rw r) (ry r + rh r)),
            LineToElement (QPointF (rx r) (ry r + rh r)),
            LineToElement (QPointF (rx r) (ry r))])"

fun path_elements :: "pathop list \<Rightarrow> element list option" where
  "path_elements [] = Some []"
| "path_elements (MoveTo p # ops) = map_option (\<lambda>es. MoveToElement p # es) (path_elements ops)"
| "path_elements (LineTo p # ops) = map_option (\<lambda>es. LineToElement p # es) (path_elements ops)"
| "path_elements (AddRect r # ops) = map_option (\<lambda>es. rect_elements r @ es) (path_elements ops)"
| "path_elements (_ # ops) = None"

definition isect_line :: "QPointF \<Rightarrow> QPointF \<Rightarrow> QPointF \<Rightarrow> int \<Rightarrow> int" where
  "isect_line p1 p2 pos winding =
     (if qy p1 = qy p2 then winding
      else (let (x1, y1, x2, y2, dir) =
                  (if qy p2 < qy p1 then (qx p2, qy p2, qx p1, qy p1, - 1)
                   else (qx p1, qy p1, qx p2, qy p2, 1))
            in if qy pos \<ge> y1 \<and> qy pos < y2
               then (let x = x1 + ((x2 - x1) / (y2 - y1)) * (qy pos - y1)
                     in if x \<le> qx pos then winding + dir else winding)
               else winding))"

fun winding_loop :: "element list \<Rightarrow> bool \<Rightarrow> QPointF \<Rightarrow> QPointF \<times> QPointF \<times> int \<Rightarrow> QPointF \<times> QPointF \<times> int" where
  "winding_loop [] first pos st = st"
| "winding_loop (MoveToElement e # es) first pos (last_pt, last_start, w) =
     winding_loop es False pos (e, e, if first then w else isect_line last_pt last_start pos w)"
| "winding_loop (LineToElement e # es) first pos (last_pt, last_start, w) =
     winding_loop es False pos (e, last_start, isect_line last_pt e pos w)"

definition element_point :: "element \<Rightarrow> QPointF" where
  "element_point e = (case e of MoveToElement p \<Rightarrow> p | LineToElement p \<Rightarrow> p)"

fun controlPointRect :: "element list \<Rightarrow> QRectF" where
  "controlPointRect [] = QRectF 0 0 0 0"
| "controlPointRect (e # es) =
     (let xs = map (qx \<circ> element_point) (e # es); ys = map (qy \<circ> element_point) (e # es);
          minx = fold min xs (hd xs); maxx = fold max xs (hd xs);
          miny = fold min ys (hd ys); maxy = fold max ys (hd ys)
      in QRectF minx miny (maxx - minx) (maxy - miny))"

definition QRectF_contains :: "QRectF \<Rightarrow> QPointF \<Rightarrow> bool" where
  "QRectF_contains r p =
     (let l = (if rw r < 0 then rx r + rw r else rx r);
          rr = (if rw r < 0 then rx r else rx r + rw r);
          t = (if rh r < 0 then ry r + rh r else ry r);
          b = (if rh r < 0 then ry r else ry r + rh r)
      in if l = rr then False
         else if qx p < l \<or> qx p > rr then False
         else if t = b then False
         else if qy p < t \<or> qy p > b then False
         else True)"

definition path_isEmpty :: "element list \<Rightarrow> bool" where
  "path_isEmpty es = (case es of [] \<Rightarrow> True | [MoveToElement _] \<Rightarrow> True | _ \<Rightarrow> False)"

definition elements_contain :: "element list \<Rightarrow> QPointF \<Rightarrow> bool" where
  "elements_contain es pos =
     (if path_isEmpty es \<or> \<not> QRectF_contains (controlPointRect es) pos then False
      else (case winding_loop es True pos (QPointF 0 0, QPointF 0 0, 0) of
              (last_pt, last_start, w) \<Rightarrow>
                (let w' = (if last_pt \<noteq> last_start then isect_line last_pt last_start pos w else w)
                 in w' mod 2 \<noteq> 0)))"

definition QPainterPath_contains :: "pathop list \<Rightarrow> QPointF \<Rightarrow> bool option" where
  "QPainterPath_contains path pos = map_option (\<lambda>es. elements_contain es pos) (path_elements path)"

text \<open>
  The bounding box. The toolkit computes it from the elements once something has been added
  to the path; a path that was constructed from its start point and nothing else still has
  the null rectangle.
\<close>

definition QPainterPath_boundingRect :: "pathop list \<Rightarrow> QRectF option" where
  "QPainterPath_boundingRect path =
     (case path of
        [MoveTo p] \<Rightarrow> Some (QRectF 0 0 0 0)
      | _ \<Rightarrow> map_option controlPointRect (path_elements path))"

section \<open>Geometry queries\<close>

definition containsPoint :: "QPointF Shape \<Rightarrow> QPointF \<Rightarrow> error + bool option" where
  "containsPoint sh pt =
     (case makePath sh of Inl e \<Rightarrow> Inl e | Inr path \<Rightarrow> Inr (QPainterPath_contains path pt))"

definition boundingRect :: "QPointF Shape \<Rightarrow> error + QRectF option" where
  "boundingRect sh =
     (case makePath sh of Inl e \<Rightarrow> Inl e | Inr path \<Rightarrow> Inr (QPainterPath_boundingRect path))"

text \<open>
  \<open>nearestVertex\<close>. \<open>labelme.utils.distance\<close> is not part of this file and is a parameter.
  \<open>min_distance\<close> starts at \<open>float('inf')\<close>, which is \<open>None\<close> here: every distance is below it.
\<close>

definition lt_min :: "real \<Rightarrow> real option \<Rightarrow> bool" where
  "lt_min d m = (case m of None \<Rightarrow> True | Some v \<Rightarrow> d < v)"

fun nearestVertex_loop ::
  "(QPointF \<Rightarrow> real) \<Rightarrow> QPointF \<Rightarrow> real \<Rightarrow> QPointF list \<Rightarrow> nat
     \<Rightarrow> real option \<times> nat option \<Rightarrow> real option \<times> nat option" where
  "nearestVertex_loop distance pt epsilon [] i st = st"
| "nearestVertex_loop distance pt epsilon (p # ps) i (min_distance, min_i) =
     (let dist = distance (QPointF_sub p pt) in
      if dist \<le> epsilon \<and> lt_min dist min_distance
      then nearestVertex_loop distance pt epsilon ps (Suc i) (Some dist, Some i)
      else nearestVertex_loop distance pt epsilon ps (Suc i) (min_distance, min_i))"

definition nearestVertex :: "(QPointF \<Rightarrow> real) \<Rightarrow> QPointF \<Rightarrow> real \<Rightarrow> QPointF Shape \<Rightarrow> nat option" where
  "nearestVertex distance pt epsilon sh =
     snd (nearestVertex_loop distance pt epsilon (points sh) 0 (None, None))"

text \<open>
  \<open>nearestEdge\<close>, with \<open>labelme.utils.distancetoline\<close> as a parameter. For \<open>i = 0\<close> the edge
  starts at \<open>self.points[-1]\<close>.
\<close>

fun nearestEdge_loop ::
  "(QPointF \<Rightarrow> QPointF \<times> QPointF \<Rightarrow> real) \<Rightarrow> QPointF \<Rightarrow> real \<Rightarrow> QPointF list \<Rightarrow> nat list
     \<Rightarrow> real option \<times> nat option \<Rightarrow> error + real option \<times> nat option" where
  "nearestEdge_loop distancetoline pt epsilon ps [] st = Inr st"
| "nearestEdge_loop distancetoline pt epsilon ps (i # is) (min_distance, post_i) =
     py_bind (py_get ps (int i - 1)) (\<lambda>a.
     py_bind (py_get ps (int i)) (\<lambda>b.
       (let dist = distancetoline pt (a, b) in
        if dist \<le> epsilon \<and> lt_min dist min_distance
        then nearestEdge_loop distancetoline pt epsilon ps is (Some dist, Some i)
        else nearestEdge_loop distancetoline pt epsilon ps is (min_distance, post_i))))"

definition nearestEdge ::
  "(QPointF \<Rightarrow> QPointF \<times> QPointF \<Rightarrow> real) \<Rightarrow> QPointF \<Rightarrow> real \<Rightarrow> QPointF Shape \<Rightarrow> error + nat option" where
  "nearestEdge distancetoline pt epsilon sh =
     map_sum id snd
       (nearestEdge_loop distancetoline pt epsilon (points sh) [0..<length (points sh)] (None, None))"

section \<open>Objects and references\<close>

text \<open>
  \<open>self.points\<close> and \<open>self.segments\<close> are Python lists and every segment is a list of its
  own: mutable objects that a shape reaches through references. For \<open>copy\<close> the objects live in
  a store, one cell per object, addressed by position; allocating an object appends a cell.
  Points and numbers are values inside their cell: no method changes a point in place.
\<close>

type_synonym addr = nat

datatype 'p cell =
    ShapeCell addr addr int shape_kind bool
  | PointsCell "'p list"
  | SegmentsCell "addr list"
  | SegmentCell int int

type_synonym 'p heap = "'p cell list"

definition cell_at :: "'p heap \<Rightarrow> addr \<Rightarrow> 'p cell option" where
  "cell_at h a = (if a < length h then Some (h ! a) else None)"

definition alloc :: "'p cell \<Rightarrow> 'p heap \<Rightarrow> addr \<times> 'p heap" where
  "alloc c h = (length h, h @ [c])"

text \<open>Reading a segment object, and the segments a segment list refers to.\<close>

definition segment_at :: "'p heap \<Rightarrow> addr \<Rightarrow> (int \<times> int) option" where
  "segment_at h s = (case cell_at h s of Some (SegmentCell b l) \<Rightarrow> Some (b, l) | _ \<Rightarrow> None)"

fun load_segments :: "'p heap \<Rightarrow> addr list \<Rightarrow> (int \<times> int) list option" where
  "load_segments h [] = Some []"
| "load_segments h (s # ss) =
     (case segment_at h s of
        None \<Rightarrow> None
      | Some seg \<Rightarrow> map_option (\<lambda>rest. seg # rest) (load_segments h ss))"

text \<open>The shape value that a reference to a \<open>Shape\<close> object denotes in a store.\<close>

definition load_shape :: "'p heap \<Rightarrow> addr \<Rightarrow> 'p Shape option" where
  "load_shape h a =
     (case cell_at h a of
        Some (ShapeCell pr sr n k c) \<Rightarrow>
          (case cell_at h pr of
             Some (PointsCell ps) \<Rightarrow>
               (case cell_at h sr of
                  Some (SegmentsCell ss) \<Rightarrow>
                    map_option (\<lambda>segs. \<lparr>points = ps, segments = segs, points_in_segments = n,
                                         shape_type = k, closed = c\<rparr>)
                      (load_segments h ss)
                | _ \<Rightarrow> None)
           | _ \<Rightarrow> None)
      | _ \<Rightarrow> None)"

text \<open>
  \<open>copy\<close> is \<open>copy.deepcopy(self)\<close>: a new list for the points, a new list for the segments
  holding a new list for every segment, and a new \<open>Shape\<close> object with the same scalar fields.
  The memo of \<open>deepcopy\<close> maps a segment object already copied to its copy, so that a segment
  object referenced twice is copied once.
\<close>

fun deepcopy_segments ::
  "addr list \<Rightarrow> (addr \<times> addr) list \<Rightarrow> 'p heap \<Rightarrow> (addr list \<times> (addr \<times> addr) list \<times> 'p heap) option" where
  "deepcopy_segments [] memo h = Some ([], memo, h)"
| "deepcopy_segments (s # ss) memo h =
     (case map_of memo s of
        Some s' \<Rightarrow>
          map_option (\<lambda>(r, m, h'). (s' # r, m, h')) (deepcopy_segments ss memo h)
      | None \<Rightarrow>
          (case cell_at h s of
             Some (SegmentCell b l) \<Rightarrow>
               map_option (\<lambda>(r, m, h'). (length h # r, m, h'))
                 (deepcopy_segments ss ((s, length h) # memo) (h @ [SegmentCell b l]))
           | _ \<Rightarrow> None))"

definition copy :: "addr \<Rightarrow> 'p heap \<Rightarrow> (addr \<times> 'p heap) option" where
  "copy a h =
     (case cell_at h a of
        Some (ShapeCell pr sr n k c) \<Rightarrow>
          (case cell_at h pr of
             Some (PointsCell ps) \<Rightarrow>
               (case cell_at h sr of
                  Some (SegmentsCell ss) \<Rightarrow>
                    (let (pr', h1) = alloc (PointsCell ps) h in
                     case deepcopy_segments ss [] h1 of
                       None \<Rightarrow> None
                     | Some (ss', memo, h2) \<Rightarrow>
                         (let (sr', h3) = alloc (SegmentsCell ss') h2;
                              (a', h4) = alloc (ShapeCell pr' sr' n k c) h3
                          in Some (a', h4)))
                | _ \<Rightarrow> None)
           | _ \<Rightarrow> None)
      | _ \<Rightarrow> None)"

text \<open>
  The statements by which the methods change a shape, executed on the object at a reference:
  \<open>append\<close>, \<open>insert\<close>, \<open>pop\<close> and item assignment on \<open>self.points\<close> (\<open>addPoint\<close>,
  \<open>createSegment\<close>, \<open>insertPoint\<close>, \<open>removePoint\<close>, \<open>popPoint\<close>, \<open>moveVertexBy\<close>,
  \<open>__setitem__\<close>), the assignment of a new list to \<open>self.points\<close> (\<open>moveBy\<close>), \<open>append\<close> of
  a new segment to \<open>self.segments\<close> and the assignment of the counter (\<open>addSegment\<close>), the
  increment of a segment's length (\<open>addPointToSegment\<close>), and the assignment of the closed flag
  (\<open>close\<close>, \<open>setOpen\<close>). A statement that raises leaves the store as it is.
\<close>

datatype 'p mutation =
    PointsAppend 'p
  | PointsInsert int 'p
  | PointsPop int
  | PointsSetItem int 'p
  | PointsRebind "'p list"
  | SegmentsAppend int int
  | SegmentIncrement int
  | SetCounter int
  | SetClosed bool

definition update_points :: "('p list \<Rightarrow> 'p list) \<Rightarrow> addr \<Rightarrow> 'p heap \<Rightarrow> 'p heap" where
  "update_points f a h =
     (case cell_at h a of
        Some (ShapeCell pr sr n k c) \<Rightarrow>
          (case cell_at h pr of
             Some (PointsCell ps) \<Rightarrow> h[pr := PointsCell (f ps)]
           | _ \<Rightarrow> h)
      | _ \<Rightarrow> h)"

fun mutate :: "'p mutation \<Rightarrow> addr \<Rightarrow> 'p heap \<Rightarrow> 'p heap" where
  "mutate (PointsAppend p) a h = update_points (\<lambda>ps. ps @ [p]) a h"
| "mutate (PointsInsert i p) a h =
     update_points (\<lambda>ps. case py_insert ps i p of Inl e \<Rightarrow> ps | Inr ps' \<Rightarrow> ps') a h"
| "mutate (PointsPop i) a h =
     update_points (\<lambda>ps. case py_pop ps i of Inl e \<Rightarrow> ps | Inr (_, ps') \<Rightarrow> ps') a h"
| "mutate (PointsSetItem i p) a h =
     update_points (\<lambda>ps. case py_set ps i p of Inl e \<Rightarrow> ps | Inr ps' \<Rightarrow> ps') a h"
| "mutate (PointsRebind ps') a h =
     (case cell_at h a of
        Some (ShapeCell pr sr n k c) \<Rightarrow> (h @ [PointsCell ps'])[a := ShapeCell (length h) sr n k c]
      | _ \<Rightarrow> h)"
| "mutate (SegmentsAppend b l) a h =
     (case cell_at h a of
        Some (ShapeCell pr sr n k c) \<Rightarrow>
          (case cell_at h sr of
             Some (SegmentsCell ss) \<Rightarrow> (h @ [SegmentCell b l])[sr := SegmentsCell (ss @ [length h])]
           | _ \<Rightarrow> h)
      | _ \<Rightarrow> h)"
| "mutate (SegmentIncrement i) a h =
     (case cell_at h a of
        Some (ShapeCell pr sr n k c) \<Rightarrow>
          (case cell_at h sr of
             Some (SegmentsCell ss) \<Rightarrow>
               (case py_get ss i of
                  Inl e \<Rightarrow> h
                | Inr s \<Rightarrow>
                    (case cell_at h s of
                       Some (SegmentCell b l) \<Rightarrow> h[s := SegmentCell b (l + 1)]
                     | _ \<Rightarrow> h))
           | _ \<Rightarrow> h)
      | _ \<Rightarrow> h)"
| "mutate (SetCounter n') a h =
     (case cell_at h a of
        Some (ShapeCell pr sr n k c) \<Rightarrow> h[a := ShapeCell pr sr n' k c]
      | _ \<Rightarrow> h)"
| "mutate (SetClosed c') a h =
     (case cell_at h a of
        Some (ShapeCell pr sr n k c) \<Rightarrow> h[a := ShapeCell pr sr n k c']
      | _ \<Rightarrow> h)"

fun mutates :: "'p mutation list \<Rightarrow> addr \<Rightarrow> 'p heap \<Rightarrow> 'p heap" where
  "mutates [] a h = h"
| "mutates (m # ms) a h = mutates ms a (mutate m a h)"

text \<open>The containers of a shape: its point list, its segment list and the segments in it.\<close>

definition containers :: "'p heap \<Rightarrow> addr \<Rightarrow> addr set" where
  "containers h a =
     (case cell_at h a of
        Some (ShapeCell pr sr n k c) \<Rightarrow>
          {pr, sr} \<union> (case cell_at h sr of Some (SegmentsCell ss) \<Rightarrow> set ss | _ \<Rightarrow> {})
      | _ \<Rightarrow> {})"

section \<open>Properties of the segment counter\<close>

lemma addSegment_segments: "segments (addSegment b l sh) = segments sh @ [(b, l)]"
  by (simp add: addSegment_def Let_def)

lemma addSegment_later:
  "segments sh \<noteq> [] \<Longrightarrow> points_in_segments (addSegment b l sh) = points_in_segments sh + (l - 1)"
  by (simp add: addSegment_def Let_def)

lemma addSegment_first:
  "segments sh = [] \<Longrightarrow> points_in_segments (addSegment b l sh) = l"
  by (simp add: addSegment_def Let_def)

lemma addSegments_later:
  "segments sh \<noteq> [] \<Longrightarrow>
   points_in_segments (addSegments ss sh) = points_in_segments sh + (\<Sum>s\<leftarrow>ss. snd s - 1)"
proof (induction ss arbitrary: sh)
  case Nil
  then show ?case by simp
next
  case (Cons s ss)
  obtain b l where s: "s = (b, l)" by (cases s)
  have ne: "segments (addSegment b l sh) \<noteq> []" by (simp add: addSegment_segments)
  show ?case
    using Cons.IH [OF ne] Cons.prems by (simp add: s addSegment_later)
qed

text \<open>
  C3. Starting from a shape with no recorded segment, after recording segments of sizes
  \<open>s1, ..., sk\<close> the counter \<open>points_in_segments\<close> is \<open>s1\<close> plus the sum of \<open>si - 1\<close> over the
  later segments; in particular it is \<open>s1\<close> after the first one, and each later segment
  adds its size minus one.
\<close>

theorem points_in_segments_sum:
  "segments sh = [] \<Longrightarrow>
   points_in_segments (addSegments ((b1, s1) # rest) sh) = s1 + (\<Sum>s\<leftarrow>rest. snd s - 1)
   \<and> points_in_segments (addSegment b1 s1 sh) = s1
   \<and> points_in_segments (addSegments (((b1, s1) # rest) @ [(b, l)]) sh)
       = points_in_segments (addSegments ((b1, s1) # rest) sh) + (l - 1)"
proof -
  assume e: "segments sh = []"
  have ne: "segments (addSegment b1 s1 sh) \<noteq> []" by (simp add: addSegment_segments)
  have f: "points_in_segments (addSegment b1 s1 sh) = s1" using e by (rule addSegment_first)
  have a: "points_in_segments (addSegments ((b1, s1) # rest) sh) = s1 + (\<Sum>s\<leftarrow>rest. snd s - 1)"
    using addSegments_later [OF ne, of rest] f by simp
  have b: "points_in_segments (addSegments (((b1, s1) # rest) @ [(b, l)]) sh)
             = s1 + (\<Sum>s\<leftarrow>rest @ [(b, l)]. snd s - 1)"
    using addSegments_later [OF ne, of "rest @ [(b, l)]"] f by simp
  show ?thesis using a b f by simp
qed

theorem points_in_segments_sum_witness:
  "segments (init_Shape curve :: nat Shape) = []
   \<and> points_in_segments (addSegments [(0, 3), (2, 4), (5, 2)] (init_Shape curve :: nat Shape)) = 3 + (3 + 1)"
  using points_in_segments_sum [of "init_Shape curve :: nat Shape" 0 3 "[(2, 4), (5, 2)]" 7 2]
  by (simp add: init_Shape_def)

section \<open>The release protocol on an empty curve\<close>

text \<open>
  C10. On a curve shape with no point, \<open>addPoint(point, is_release=True)\<close> evaluates
  \<open>self.points[-1]\<close> first and raises \<open>IndexError\<close>, whatever the point and the anchor.
\<close>

theorem addPoint_release_empty:
  "shape_type sh = curve \<Longrightarrow> points sh = [] \<Longrightarrow> addPoint pt True new_p sh = Inl IndexError"
  by (simp add: addPoint_def py_get_def py_in_range_def py_norm_def)

theorem addPoint_release_empty_witness:
  "shape_type (init_Shape curve :: nat Shape) = curve
   \<and> points (init_Shape curve :: nat Shape) = []
   \<and> addPoint (5 :: nat) True 0 (init_Shape curve) = Inl IndexError"
  using addPoint_release_empty [of "init_Shape curve :: nat Shape" 5 0]
  by (simp add: init_Shape_def)

section \<open>A release without an anchor\<close>

lemmas py_defs = py_get_def py_set_def py_pop_def py_insert_def py_in_range_def py_norm_def
  Py_ssize_t_def

text \<open>
  C1. The state is the one reached by the documented session (anchor \<open>P0\<close>, its release,
  release at \<open>P1\<close>): two points, counter 2, no segment. A release at a new point \<open>P2\<close>
  needs an anchor. With \<open>new_p\<close> omitted no exception is raised: the default integer \<open>0\<close> is
  inserted into the point list at index 1 and the segment \<open>[0, 3]\<close> is recorded over it.
\<close>

theorem addPoint_missing_anchor_no_error:
  "addPoint_default (Obj (QPointF 2 0)) True
     \<lparr>points = [Obj (QPointF 0 0), Obj (QPointF 1 0)], segments = [], points_in_segments = 2,
      shape_type = curve, closed = False\<rparr>
   = Inr \<lparr>points = [Obj (QPointF 0 0), PyInt 0, Obj (QPointF 1 0), Obj (QPointF 2 0)],
          segments = [(0, 3)], points_in_segments = 3, shape_type = curve, closed = False\<rparr>"
  by (simp add: addPoint_default_def addPoint_def addPoint_try_def createSegment_def addSegment_def
      insertPoint_def py_defs Let_def QUADRATIC_BEZIER_ORDER_def CUBIC_BEZIER_ORDER_def)

section \<open>Segment finalization\<close>

lemma createSegment_eq:
  assumes "points sh \<noteq> []" "pt = last (points sh)"
  shows "createSegment pt di np sh =
     Inr (addSegment (int (length (points sh)) - (2 + di)) (2 + di) sh)"
  using assms
  by (simp add: createSegment_def py_defs Let_def QUADRATIC_BEZIER_ORDER_def last_conv_nth
      nat_diff_distrib')

lemma createSegment_neq:
  assumes "points sh \<noteq> []" "pt \<noteq> last (points sh)"
  shows "createSegment pt di np sh =
     Inr (addSegment (int (length (points sh)) + 1 - (3 + di)) (3 + di)
           (sh\<lparr>points := take (nat (max (int (length (points sh)) - 1) 1)) (points sh) @ [np]
                          @ drop (nat (max (int (length (points sh)) - 1) 1)) (points sh) @ [pt]\<rparr>))"
  using assms
  apply (simp add: createSegment_def py_defs Let_def CUBIC_BEZIER_ORDER_def last_conv_nth
      nat_diff_distrib' insertPoint_def)
  apply (auto simp: max_def min_def)
  done

text \<open>
  C2, as the claim states its last part: the incoming point would be the final point of the
  recorded segment. With points \<open>[P0, P1]\<close>, anchor \<open>A\<close> and a new point \<open>P2\<close> the result is
  \<open>[P0, A, P1, P2]\<close> with segment \<open>[0, 3]\<close>, whose final point is \<open>P1\<close>, not \<open>P2\<close>.
\<close>

theorem createSegment_final_point_counterexample:
  "createSegment (QPointF 2 0) 0 (QPointF 1 1)
     \<lparr>points = [QPointF 0 0, QPointF 1 0], segments = [], points_in_segments = 2,
      shape_type = curve, closed = False\<rparr>
   = Inr \<lparr>points = [QPointF 0 0, QPointF 1 1, QPointF 1 0, QPointF 2 0],
          segments = [(0, 3)], points_in_segments = 3, shape_type = curve, closed = False\<rparr>
  \<and> segment_final_point \<lparr>points = [QPointF 0 0, QPointF 1 1, QPointF 1 0, QPointF 2 0],
          segments = [(0, 3)], points_in_segments = 3, shape_type = curve, closed = False\<rparr>
      = Inr (QPointF 1 0)
  \<and> QPointF 1 0 \<noteq> QPointF 2 0"
  by (simp add: createSegment_def addSegment_def segment_final_point_def
      insertPoint_def py_defs Let_def QUADRATIC_BEZIER_ORDER_def CUBIC_BEZIER_ORDER_def)

text \<open>
  C2, amended. For a shape with \<open>N \<ge> 1\<close> points: if the incoming point equals the last stored
  point, \<open>createSegment\<close> records the segment \<open>[N - size, size]\<close> with \<open>size = 2 + degree_increment\<close>
  and leaves the points as they are. Otherwise it inserts the anchor at index \<open>max (N - 1) 1\<close>,
  records the segment \<open>[(N + 1) - size, size]\<close> with \<open>size = 3 + degree_increment\<close>, and appends
  the incoming point at the end of the list, at index \<open>N + 1\<close>, which is \<open>seg_begin + seg_len\<close>:
  one past the segment's last index.
\<close>

theorem createSegment_release:
  "points sh \<noteq> [] \<Longrightarrow>
   (pt = last (points sh) \<longrightarrow>
      (\<exists>sh'. createSegment pt di np sh = Inr sh'
         \<and> points sh' = points sh
         \<and> segments sh' = segments sh
              @ [(int (length (points sh)) - (2 + di), 2 + di)]))
   \<and> (pt \<noteq> last (points sh) \<longrightarrow>
      (\<exists>sh'. createSegment pt di np sh = Inr sh'
         \<and> points sh' = take (nat (max (int (length (points sh)) - 1) 1)) (points sh) @ [np]
                          @ drop (nat (max (int (length (points sh)) - 1) 1)) (points sh) @ [pt]
         \<and> segments sh' = segments sh
              @ [(int (length (points sh)) + 1 - (3 + di), 3 + di)]
         \<and> int (length (points sh')) = int (length (points sh)) + 2
         \<and> py_get (points sh') (int (length (points sh)) + 1) = Inr pt))"
proof -
  assume ne: "points sh \<noteq> []"
  have len: "0 < length (points sh)" using ne by simp
  show ?thesis
  proof (intro conjI impI)
    assume "pt = last (points sh)"
    then show "\<exists>sh'. createSegment pt di np sh = Inr sh'
         \<and> points sh' = points sh
         \<and> segments sh' = segments sh @ [(int (length (points sh)) - (2 + di), 2 + di)]"
      using createSegment_eq [OF ne] by (simp add: addSegment_def Let_def)
  next
    assume "pt \<noteq> last (points sh)"
    then show "\<exists>sh'. createSegment pt di np sh = Inr sh'
         \<and> points sh' = take (nat (max (int (length (points sh)) - 1) 1)) (points sh) @ [np]
                          @ drop (nat (max (int (length (points sh)) - 1) 1)) (points sh) @ [pt]
         \<and> segments sh' = segments sh
              @ [(int (length (points sh)) + 1 - (3 + di), 3 + di)]
         \<and> int (length (points sh')) = int (length (points sh)) + 2
         \<and> py_get (points sh') (int (length (points sh)) + 1) = Inr pt"
      using createSegment_neq [OF ne, of pt di np] len
      apply (simp add: addSegment_def Let_def py_get_def py_in_range_def py_norm_def)
      apply (simp add: nth_append max_def min_def nat_add_distrib split: if_splits)
      done
  qed
qed

theorem createSegment_release_witness:
  "points \<lparr>points = [QPointF 0 0, QPointF 1 0], segments = [], points_in_segments = 2,
           shape_type = curve, closed = False\<rparr> \<noteq> []
   \<and> (\<exists>sh'. createSegment (QPointF 1 0) 0 (QPointF 1 1)
               \<lparr>points = [QPointF 0 0, QPointF 1 0], segments = [], points_in_segments = 2,
                shape_type = curve, closed = False\<rparr> = Inr sh'
          \<and> points sh' = [QPointF 0 0, QPointF 1 0]
          \<and> segments sh' = [(0, 2)])
   \<and> (\<exists>sh'. createSegment (QPointF 2 0) 0 (QPointF 1 1)
               \<lparr>points = [QPointF 0 0, QPointF 1 0], segments = [], points_in_segments = 2,
                shape_type = curve, closed = False\<rparr> = Inr sh'
          \<and> points sh' = [QPointF 0 0, QPointF 1 1, QPointF 1 0, QPointF 2 0]
          \<and> segments sh' = [(0, 3)]
          \<and> py_get (points sh') 3 = Inr (QPointF 2 0))"
  using createSegment_release [of "\<lparr>points = [QPointF 0 0, QPointF 1 0], segments = [],
          points_in_segments = 2, shape_type = curve, closed = False\<rparr>" "QPointF 1 0" 0 "QPointF 1 1"]
        createSegment_release [of "\<lparr>points = [QPointF 0 0, QPointF 1 0], segments = [],
          points_in_segments = 2, shape_type = curve, closed = False\<rparr>" "QPointF 2 0" 0 "QPointF 1 1"]
  by simp blast

section \<open>Index-based store operations\<close>









section \<open>Nearest vertex\<close>

lemma nearestVertex_loop_none:
  "\<forall>p\<in>set ps. \<not> (distance (QPointF_sub p pt) \<le> eps \<and> lt_min (distance (QPointF_sub p pt)) md)
   \<Longrightarrow> nearestVertex_loop distance pt eps ps i (md, mi) = (md, mi)"
  by (induction ps arbitrary: i) (auto simp: Let_def)

lemma nearestVertex_loop_some:
  "\<exists>p\<in>set ps. distance (QPointF_sub p pt) \<le> eps \<and> lt_min (distance (QPointF_sub p pt)) md
   \<Longrightarrow> \<exists>j<length ps.
         snd (nearestVertex_loop distance pt eps ps i (md, mi)) = Some (i + j)
       \<and> distance (QPointF_sub (ps ! j) pt) \<le> eps
       \<and> lt_min (distance (QPointF_sub (ps ! j) pt)) md
       \<and> (\<forall>k<length ps. distance (QPointF_sub (ps ! j) pt) \<le> distance (QPointF_sub (ps ! k) pt))
       \<and> (\<forall>k<j. distance (QPointF_sub (ps ! j) pt) < distance (QPointF_sub (ps ! k) pt))"
proof (induction ps arbitrary: i md mi)
  case Nil
  then show ?case by simp
next
  case (Cons p ps)
  let ?d = "\<lambda>q. distance (QPointF_sub q pt)"
  show ?case
  proof (cases "?d p \<le> eps \<and> lt_min (?d p) md")
    case True
    note q = True
    show ?thesis
    proof (cases "\<exists>r\<in>set ps. ?d r \<le> eps \<and> lt_min (?d r) (Some (?d p))")
      case True
      from Cons.IH [OF True, of "Suc i" "Some i"]
      obtain j where j: "j < length ps"
        "snd (nearestVertex_loop distance pt eps ps (Suc i) (Some (?d p), Some i)) = Some (Suc i + j)"
        "?d (ps ! j) \<le> eps" "lt_min (?d (ps ! j)) (Some (?d p))"
        "\<forall>k<length ps. ?d (ps ! j) \<le> ?d (ps ! k)"
        "\<forall>k<j. ?d (ps ! j) < ?d (ps ! k)"
        by blast
      have lt: "?d (ps ! j) < ?d p" using j(4) by (simp add: lt_min_def)
      have m: "lt_min (?d (ps ! j)) md" using q lt by (auto simp: lt_min_def split: option.splits)
      have all: "\<forall>k<length (p # ps). ?d ((p # ps) ! Suc j) \<le> ?d ((p # ps) ! k)"
        using j(5) lt by (auto simp: nth_Cons split: nat.splits)
      have bef: "\<forall>k<Suc j. ?d ((p # ps) ! Suc j) < ?d ((p # ps) ! k)"
        using j(6) lt by (auto simp: nth_Cons split: nat.splits)
      show ?thesis
        apply (rule exI [of _ "Suc j"])
        using j(1,2,3) m all bef q by (simp add: Let_def)
    next
      case False
      then have n: "\<forall>r\<in>set ps. \<not> (?d r \<le> eps \<and> lt_min (?d r) (Some (?d p)))" by blast
      have r: "nearestVertex_loop distance pt eps ps (Suc i) (Some (?d p), Some i) = (Some (?d p), Some i)"
        using nearestVertex_loop_none [OF n] .
      have all: "\<forall>k<length (p # ps). ?d ((p # ps) ! 0) \<le> ?d ((p # ps) ! k)"
      proof (intro allI impI)
        fix k assume k: "k < length (p # ps)"
        show "?d ((p # ps) ! 0) \<le> ?d ((p # ps) ! k)"
        proof (cases k)
          case 0 then show ?thesis by simp
        next
          case (Suc k')
          then have "ps ! k' \<in> set ps" using k by simp
          with n have "\<not> (?d (ps ! k') \<le> eps \<and> ?d (ps ! k') < ?d p)" by (simp add: lt_min_def)
          with q show ?thesis using Suc by auto
        qed
      qed
      show ?thesis
        apply (rule exI [of _ 0])
        using q r all by (simp add: Let_def)
    qed
  next
    case False
    note nq = False
    from Cons.prems nq have ex: "\<exists>r\<in>set ps. ?d r \<le> eps \<and> lt_min (?d r) md" by auto
    from Cons.IH [OF ex, of "Suc i" mi]
    obtain j where j: "j < length ps"
        "snd (nearestVertex_loop distance pt eps ps (Suc i) (md, mi)) = Some (Suc i + j)"
        "?d (ps ! j) \<le> eps" "lt_min (?d (ps ! j)) md"
        "\<forall>k<length ps. ?d (ps ! j) \<le> ?d (ps ! k)"
        "\<forall>k<j. ?d (ps ! j) < ?d (ps ! k)"
      by blast
    have lt: "?d (ps ! j) < ?d p"
      using nq j(3,4) by (auto simp: lt_min_def split: option.splits)
    have all: "\<forall>k<length (p # ps). ?d ((p # ps) ! Suc j) \<le> ?d ((p # ps) ! k)"
      using j(5) lt by (auto simp: nth_Cons split: nat.splits)
    have bef: "\<forall>k<Suc j. ?d ((p # ps) ! Suc j) < ?d ((p # ps) ! k)"
      using j(6) lt by (auto simp: nth_Cons split: nat.splits)
    show ?thesis
      apply (rule exI [of _ "Suc j"])
      using j(1,2,3,4) all bef nq by (auto simp: Let_def)
  qed
qed

text \<open>
  C7. If every point is farther than \<open>epsilon\<close> from the query point, \<open>nearestVertex\<close> returns
  \<open>None\<close>. If some point is within \<open>epsilon\<close>, it returns an index \<open>i\<close> whose point is within
  \<open>epsilon\<close> and at minimal distance among all points, and every point at an earlier index is
  strictly farther: of several points at the minimal distance the first is returned.
\<close>

theorem nearestVertex_spec:
  "((\<forall>p\<in>set (points sh). epsilon < distance (QPointF_sub p pt))
      \<longrightarrow> nearestVertex distance pt epsilon sh = None)
   \<and> ((\<exists>p\<in>set (points sh). distance (QPointF_sub p pt) \<le> epsilon)
      \<longrightarrow> (\<exists>i<length (points sh).
             nearestVertex distance pt epsilon sh = Some i
           \<and> distance (QPointF_sub (points sh ! i) pt) \<le> epsilon
           \<and> (\<forall>k<length (points sh).
                 distance (QPointF_sub (points sh ! i) pt) \<le> distance (QPointF_sub (points sh ! k) pt))
           \<and> (\<forall>k<i.
                 distance (QPointF_sub (points sh ! i) pt) < distance (QPointF_sub (points sh ! k) pt))))"
proof (intro conjI impI)
  assume "\<forall>p\<in>set (points sh). epsilon < distance (QPointF_sub p pt)"
  then have "\<forall>p\<in>set (points sh). \<not> (distance (QPointF_sub p pt) \<le> epsilon
      \<and> lt_min (distance (QPointF_sub p pt)) None)" by auto
  from nearestVertex_loop_none [OF this] show "nearestVertex distance pt epsilon sh = None"
    by (simp add: nearestVertex_def)
next
  assume "\<exists>p\<in>set (points sh). distance (QPointF_sub p pt) \<le> epsilon"
  then have "\<exists>p\<in>set (points sh). distance (QPointF_sub p pt) \<le> epsilon
      \<and> lt_min (distance (QPointF_sub p pt)) None" by (simp add: lt_min_def)
  from nearestVertex_loop_some [OF this, of 0 None]
  show "\<exists>i<length (points sh).
             nearestVertex distance pt epsilon sh = Some i
           \<and> distance (QPointF_sub (points sh ! i) pt) \<le> epsilon
           \<and> (\<forall>k<length (points sh).
                 distance (QPointF_sub (points sh ! i) pt) \<le> distance (QPointF_sub (points sh ! k) pt))
           \<and> (\<forall>k<i.
                 distance (QPointF_sub (points sh ! i) pt) < distance (QPointF_sub (points sh ! k) pt))"
    by (auto simp: nearestVertex_def)
qed

theorem nearestVertex_spec_witness:
  "nearestVertex (\<lambda>p. \<bar>qx p\<bar> + \<bar>qy p\<bar>) (QPointF 0 0) 2
        ((init_Shape polygon)\<lparr>points := [QPointF 3 0, QPointF 1 0, QPointF 0 1, QPointF 5 5]\<rparr>)
       = Some 1
   \<and> nearestVertex (\<lambda>p. \<bar>qx p\<bar> + \<bar>qy p\<bar>) (QPointF 0 0) 2
        ((init_Shape polygon)\<lparr>points := [QPointF 3 0, QPointF 5 5]\<rparr>)
       = None"
  using nearestVertex_spec [where sh = "(init_Shape polygon)\<lparr>points := [QPointF 3 0, QPointF 1 0, QPointF 0 1, QPointF 5 5]\<rparr>"
          and distance = "\<lambda>p. \<bar>qx p\<bar> + \<bar>qy p\<bar>" and pt = "QPointF 0 0" and epsilon = 2]
        nearestVertex_spec [where sh = "(init_Shape polygon)\<lparr>points := [QPointF 3 0, QPointF 5 5]\<rparr>"
          and distance = "\<lambda>p. \<bar>qx p\<bar> + \<bar>qy p\<bar>" and pt = "QPointF 0 0" and epsilon = 2]
  by (simp add: nearestVertex_def lt_min_def QPointF_sub_def init_Shape_def Let_def)

section \<open>Rectangles\<close>


lemmas qt_defs = QPainterPath_contains_def QPainterPath_boundingRect_def
  elements_contain_def rect_elements_def path_isEmpty_def QRectF_contains_def
  element_point_def isect_line_def






section \<open>Queries on an empty point list\<close>

text \<open>
  C4. On a shape without points \<open>nearestVertex\<close> and \<open>nearestEdge\<close> return \<open>None\<close>, and a
  rectangle or a circle has the empty path: \<open>containsPoint\<close> is false and \<open>boundingRect\<close> is
  the null rectangle. For the default \<open>'polygon'\<close> type, and for \<open>'curve'\<close>, \<open>makePath\<close> reads
  \<open>self.points[0]\<close>: \<open>containsPoint\<close> and \<open>boundingRect\<close> raise \<open>IndexError\<close>. \<open>paint\<close>, on the
  same shape, tests the point list first and does nothing.
\<close>

theorem empty_shape_queries:
  "nearestVertex distance pt epsilon (init_Shape k) = None
   \<and> nearestEdge distancetoline pt epsilon (init_Shape k) = Inr None
   \<and> containsPoint (init_Shape rectangle) pt = Inr (Some False)
   \<and> boundingRect (init_Shape rectangle) = Inr (Some (QRectF 0 0 0 0))
   \<and> makePath (init_Shape circle) = Inr []
   \<and> makePath (init_Shape polygon) = Inl IndexError
   \<and> containsPoint (init_Shape polygon) pt = Inl IndexError
   \<and> boundingRect (init_Shape polygon) = Inl IndexError
   \<and> containsPoint (init_Shape curve) pt = Inl IndexError
   \<and> boundingRect (init_Shape curve) = Inl IndexError
   \<and> paint_line_path (init_Shape polygon) = Inr None"
  by (simp add: nearestVertex_def nearestEdge_def containsPoint_def boundingRect_def makePath_def
      paint_line_path_def init_Shape_def py_get_def py_in_range_def py_norm_def qt_defs)

section \<open>The area path of a curve\<close>

text \<open>
  C6. \<open>makePath\<close> does not read the segments: changing them leaves the path as it is. For the
  curve with points \<open>P0, P1, P2, P3\<close> and the cubic segment \<open>[0, 4]\<close>, \<open>containsPoint\<close> and
  \<open>boundingRect\<close> work on the polyline \<open>P0, P1, P2, P3\<close>, while \<open>paint\<close> draws and fills the
  path made from the segment, \<open>MoveTo P0, CubicTo P1 P2 P3\<close>.
\<close>

theorem curve_makePath_ignores_segments:
  "makePath (sh\<lparr>segments := ss, points_in_segments := n\<rparr>) = makePath sh
   \<and> makePath \<lparr>points = [QPointF 0 0, QPointF 1 2, QPointF 3 2, QPointF 4 0], segments = [(0, 4)],
               points_in_segments = 4, shape_type = curve, closed = False\<rparr>
       = Inr [MoveTo (QPointF 0 0), LineTo (QPointF 1 2), LineTo (QPointF 3 2), LineTo (QPointF 4 0)]
   \<and> paint_line_path \<lparr>points = [QPointF 0 0, QPointF 1 2, QPointF 3 2, QPointF 4 0],
               segments = [(0, 4)], points_in_segments = 4, shape_type = curve, closed = False\<rparr>
       = Inr (Some [MoveTo (QPointF 0 0), MoveTo (QPointF 0 0),
                    CubicTo (QPointF 1 2) (QPointF 3 2) (QPointF 4 0)])"
  by (simp add: makePath_def paint_line_path_def drawSegment_def py_bind_def isClosed_def
      py_get_def py_in_range_def py_norm_def Let_def)

section \<open>Independence of a copy\<close>

text \<open>A store extends another when it keeps all its cells and only adds cells after them.\<close>

definition extends :: "'p heap \<Rightarrow> 'p heap \<Rightarrow> bool" where
  "extends h0 h = (length h0 \<le> length h \<and> take (length h0) h = h0)"

lemma extends_refl: "extends h h"
  by (simp add: extends_def)

lemma extends_append: "extends h0 h \<Longrightarrow> extends h0 (h @ t)"
  by (simp add: extends_def)

lemma extends_update: "extends h0 h \<Longrightarrow> length h0 \<le> k \<Longrightarrow> extends h0 (h[k := x])"
  by (simp add: extends_def)

lemma extends_nth: "extends h0 h \<Longrightarrow> x < length h0 \<Longrightarrow> h ! x = h0 ! x"
  by (metis extends_def nth_take)

lemma cell_at_extends:
  "extends h0 h \<Longrightarrow> cell_at h0 x = Some c \<Longrightarrow> cell_at h x = Some c"
  by (auto simp: cell_at_def extends_nth extends_def split: if_splits)

lemma cell_at_Some_less: "cell_at h x = Some c \<Longrightarrow> x < length h"
  by (simp add: cell_at_def split: if_splits)

lemma segment_at_extends:
  "extends h0 h \<Longrightarrow> segment_at h0 s = Some seg \<Longrightarrow> segment_at h s = Some seg"
  by (auto simp: segment_at_def split: option.splits cell.splits dest: cell_at_extends)

lemma load_segments_extends:
  "extends h0 h \<Longrightarrow> load_segments h0 ss = Some segs \<Longrightarrow> load_segments h ss = Some segs"
proof (induction ss arbitrary: segs)
  case Nil
  then show ?case by simp
next
  case (Cons s ss)
  from Cons.prems(2) obtain seg rest where
    s: "segment_at h0 s = Some seg" and r: "load_segments h0 ss = Some rest" and e: "segs = seg # rest"
    by (auto split: option.splits)
  show ?case
    using segment_at_extends [OF Cons.prems(1) s] Cons.IH [OF Cons.prems(1) r] e by simp
qed

lemma load_shape_SomeD:
  "load_shape h a = Some v \<Longrightarrow>
   \<exists>pr sr ss. cell_at h a = Some (ShapeCell pr sr (points_in_segments v) (shape_type v) (closed v))
     \<and> cell_at h pr = Some (PointsCell (points v))
     \<and> cell_at h sr = Some (SegmentsCell ss)
     \<and> load_segments h ss = Some (segments v)"
  unfolding load_shape_def
  by (auto split: option.splits cell.splits)

lemma load_shapeI:
  "cell_at h a = Some (ShapeCell pr sr n k c) \<Longrightarrow> cell_at h pr = Some (PointsCell ps)
   \<Longrightarrow> cell_at h sr = Some (SegmentsCell ss) \<Longrightarrow> load_segments h ss = Some segs
   \<Longrightarrow> load_shape h a = Some \<lparr>points = ps, segments = segs, points_in_segments = n,
                                shape_type = k, closed = c\<rparr>"
  by (simp add: load_shape_def)

lemma load_shape_extends:
  assumes "extends h0 h" "load_shape h0 a = Some v"
  shows "load_shape h a = Some v"
proof -
  from load_shape_SomeD [OF assms(2)] obtain pr sr ss where
    a: "cell_at h0 a = Some (ShapeCell pr sr (points_in_segments v) (shape_type v) (closed v))"
    and p: "cell_at h0 pr = Some (PointsCell (points v))"
    and s: "cell_at h0 sr = Some (SegmentsCell ss)"
    and l: "load_segments h0 ss = Some (segments v)"
    by blast
  have "load_shape h a = Some \<lparr>points = points v, segments = segments v,
      points_in_segments = points_in_segments v, shape_type = shape_type v, closed = closed v\<rparr>"
    by (rule load_shapeI [OF cell_at_extends [OF assms(1) a] cell_at_extends [OF assms(1) p]
          cell_at_extends [OF assms(1) s] load_segments_extends [OF assms(1) l]])
  then show ?thesis by simp
qed


lemma extends_trans:
  assumes "extends h0 h" "extends h h'"
  shows "extends h0 h'"
proof -
  have l: "length h0 \<le> length h" and t: "take (length h0) h = h0"
    using assms(1) by (simp_all add: extends_def)
  have l': "length h \<le> length h'" and t': "take (length h) h' = h"
    using assms(2) by (simp_all add: extends_def)
  have "take (length h0) (take (length h) h') = take (length h0) h'"
    using l by (simp add: min_def)
  then have "take (length h0) h' = h0" using t t' by simp
  then show ?thesis using l l' by (simp add: extends_def)
qed

lemma cell_at_append_old: "x < length h \<Longrightarrow> cell_at (h @ t) x = cell_at h x"
  by (simp add: cell_at_def nth_append)

lemma cell_at_append_new: "cell_at (h @ [c]) (length h) = Some c"
  by (simp add: cell_at_def)

lemma segment_at_SomeD: "segment_at h s = Some (b, l) \<Longrightarrow> cell_at h s = Some (SegmentCell b l)"
  by (auto simp: segment_at_def split: option.splits cell.splits)

lemma deepcopy_segments_fresh:
  assumes "extends h0 h" "load_segments h0 ss = Some segs"
    and "\<forall>s s'. map_of memo s = Some s' \<longrightarrow>
           length h0 \<le> s' \<and> s' < length h \<and> segment_at h s' = segment_at h0 s"
  shows "\<exists>ss' memo' h'. deepcopy_segments ss memo h = Some (ss', memo', h')
           \<and> extends h h' \<and> (\<forall>s'\<in>set ss'. length h0 \<le> s')
           \<and> load_segments h' ss' = Some segs"
  using assms
proof (induction ss arbitrary: segs memo h)
  case Nil
  then show ?case by (simp add: extends_refl)
next
  case (Cons s ss)
  from Cons.prems(2) obtain b l rest where
    s: "segment_at h0 s = Some (b, l)" and r: "load_segments h0 ss = Some rest"
    and e: "segs = (b, l) # rest"
    by (auto split: option.splits)
  show ?case
  proof (cases "map_of memo s")
    case (Some s')
    with Cons.prems(3) s have s': "length h0 \<le> s'" "s' < length h" "segment_at h s' = Some (b, l)"
      by auto
    from Cons.IH [OF Cons.prems(1) r Cons.prems(3)]
    obtain ss' memo' h' where d: "deepcopy_segments ss memo h = Some (ss', memo', h')"
      and x: "extends h h'" and f: "\<forall>s'\<in>set ss'. length h0 \<le> s'"
      and ld: "load_segments h' ss' = Some rest"
      by blast
    have "segment_at h' s' = Some (b, l)" using segment_at_extends [OF x s'(3)] .
    then show ?thesis using Some d x f ld s'(1) e by simp
  next
    case None
    have c0: "cell_at h0 s = Some (SegmentCell b l)" using s by (rule segment_at_SomeD)
    have c: "cell_at h s = Some (SegmentCell b l)" using cell_at_extends [OF Cons.prems(1) c0] .
    let ?h1 = "h @ [SegmentCell b l]"
    let ?memo1 = "(s, length h) # memo"
    have x1: "extends h0 ?h1" using Cons.prems(1) by (rule extends_append)
    have le: "length h0 \<le> length h" using Cons.prems(1) by (simp add: extends_def)
    have new: "segment_at ?h1 (length h) = Some (b, l)"
      by (simp add: segment_at_def cell_at_append_new)
    have m1: "\<forall>t t'. map_of ?memo1 t = Some t' \<longrightarrow>
           length h0 \<le> t' \<and> t' < length ?h1 \<and> segment_at ?h1 t' = segment_at h0 t"
    proof (intro allI impI)
      fix t t' assume a: "map_of ?memo1 t = Some t'"
      show "length h0 \<le> t' \<and> t' < length ?h1 \<and> segment_at ?h1 t' = segment_at h0 t"
      proof (cases "t = s")
        case True
        then have "t' = length h" using a by simp
        then show ?thesis using le new s True by simp
      next
        case False
        then have "map_of memo t = Some t'" using a by simp
        with Cons.prems(3) have "length h0 \<le> t'" "t' < length h" "segment_at h t' = segment_at h0 t"
          by auto
        then show ?thesis by (simp add: segment_at_def cell_at_append_old)
      qed
    qed
    from Cons.IH [OF x1 r m1]
    obtain ss' memo' h' where d: "deepcopy_segments ss ?memo1 ?h1 = Some (ss', memo', h')"
      and x: "extends ?h1 h'" and f: "\<forall>s'\<in>set ss'. length h0 \<le> s'"
      and ld: "load_segments h' ss' = Some rest"
      by blast
    have xh: "extends h h'"
      using extends_trans [OF extends_append [OF extends_refl] x] .
    have "segment_at h' (length h) = Some (b, l)" using segment_at_extends [OF x new] .
    then show ?thesis using None c d xh f ld le e by simp
  qed
qed


text \<open>
  A shape object is fresh for the first \<open>n0\<close> cells when it and all its containers lie beyond
  them.
\<close>

definition fresh :: "nat \<Rightarrow> addr \<Rightarrow> 'p heap \<Rightarrow> bool" where
  "fresh n0 c h =
     (n0 \<le> c \<and>
      (\<forall>pr sr n k cl. cell_at h c = Some (ShapeCell pr sr n k cl) \<longrightarrow>
         n0 \<le> pr \<and> n0 \<le> sr \<and>
         (\<forall>ss. cell_at h sr = Some (SegmentsCell ss) \<longrightarrow> (\<forall>s\<in>set ss. n0 \<le> s))))"

lemma extends_length: "extends h0 h \<Longrightarrow> length h0 \<le> length h"
  by (simp add: extends_def)

lemma copy_fresh:
  assumes "load_shape h a = Some v"
  shows "\<exists>c h1. copy a h = Some (c, h1) \<and> extends h h1 \<and> load_shape h1 c = Some v
           \<and> fresh (length h) c h1"
proof -
  from load_shape_SomeD [OF assms] obtain pr sr ss where
    a: "cell_at h a = Some (ShapeCell pr sr (points_in_segments v) (shape_type v) (closed v))"
    and p: "cell_at h pr = Some (PointsCell (points v))"
    and s: "cell_at h sr = Some (SegmentsCell ss)"
    and l: "load_segments h ss = Some (segments v)"
    by blast
  let ?h1 = "h @ [PointsCell (points v)]"
  have x1: "extends h ?h1" by (rule extends_append [OF extends_refl])
  have m0: "\<forall>s s'. map_of ([] :: (addr \<times> addr) list) s = Some s' \<longrightarrow>
           length h \<le> s' \<and> s' < length ?h1 \<and> segment_at ?h1 s' = segment_at h s"
    by simp
  from deepcopy_segments_fresh [OF x1 l m0]
  obtain ss' memo' h2 where d: "deepcopy_segments ss [] ?h1 = Some (ss', memo', h2)"
    and x2: "extends ?h1 h2" and f: "\<forall>s'\<in>set ss'. length h \<le> s'"
    and ld: "load_segments h2 ss' = Some (segments v)"
    by blast
  let ?h3 = "h2 @ [SegmentsCell ss']"
  let ?sh = "ShapeCell (length h) (length h2) (points_in_segments v) (shape_type v) (closed v)"
  let ?h4 = "?h3 @ [?sh]"
  have cp: "copy a h = Some (length ?h3, ?h4)"
    using a p s d by (simp add: copy_def alloc_def)
  have x23: "extends h2 ?h3" by (rule extends_append [OF extends_refl])
  have x34: "extends ?h3 ?h4" by (rule extends_append [OF extends_refl])
  have x24: "extends h2 ?h4" using extends_trans [OF x23 x34] .
  have x14: "extends ?h1 ?h4" using extends_trans [OF x2 x24] .
  have x04: "extends h ?h4" using extends_trans [OF x1 x14] .
  have ca: "cell_at ?h4 (length ?h3) = Some ?sh" by (rule cell_at_append_new)
  have cp1: "cell_at ?h1 (length h) = Some (PointsCell (points v))" by (rule cell_at_append_new)
  have cpp: "cell_at ?h4 (length h) = Some (PointsCell (points v))"
    using cell_at_extends [OF x14 cp1] .
  have cs3: "cell_at ?h3 (length h2) = Some (SegmentsCell ss')" by (rule cell_at_append_new)
  have cs: "cell_at ?h4 (length h2) = Some (SegmentsCell ss')"
    using cell_at_extends [OF x34 cs3] .
  have ls: "load_segments ?h4 ss' = Some (segments v)"
    using load_segments_extends [OF x24 ld] .
  have "load_shape ?h4 (length ?h3) = Some \<lparr>points = points v, segments = segments v,
      points_in_segments = points_in_segments v, shape_type = shape_type v, closed = closed v\<rparr>"
    by (rule load_shapeI [OF ca cpp cs ls])
  then have lo: "load_shape ?h4 (length ?h3) = Some v" by simp
  have l12: "length h \<le> length h2" using extends_length [OF x2] by simp
  have fr: "fresh (length h) (length ?h3) ?h4"
    unfolding fresh_def using ca cs f l12 by simp
  show ?thesis using cp x04 lo fr by blast
qed

lemma cell_at_update:
  "cell_at (h[k := x]) j = (if j = k \<and> k < length h then Some x else cell_at h j)"
  by (simp add: cell_at_def nth_list_update)

lemma cell_at_append1:
  "cell_at (h @ [x]) j = (if j = length h then Some x else cell_at h j)"
  by (simp add: cell_at_def nth_append)

lemma update_points_inv:
  assumes "extends h0 h" "fresh (length h0) c h"
  shows "extends h0 (update_points f c h) \<and> fresh (length h0) c (update_points f c h)"
proof (cases "\<exists>pr sr n k cl ps. cell_at h c = Some (ShapeCell pr sr n k cl)
                 \<and> cell_at h pr = Some (PointsCell ps)")
  case False
  then have "update_points f c h = h"
    by (auto simp: update_points_def split: option.splits cell.splits)
  then show ?thesis using assms by simp
next
  case True
  then obtain pr sr n k cl ps where c: "cell_at h c = Some (ShapeCell pr sr n k cl)"
    and p: "cell_at h pr = Some (PointsCell ps)" by blast
  have u: "update_points f c h = h[pr := PointsCell (f ps)]"
    using c p by (simp add: update_points_def)
  have ge: "length h0 \<le> pr" "length h0 \<le> sr" "length h0 \<le> c"
    using assms(2) c by (auto simp: fresh_def)
  have sg: "\<And>ss. cell_at h sr = Some (SegmentsCell ss) \<Longrightarrow> \<forall>s\<in>set ss. length h0 \<le> s"
    using assms(2) c by (auto simp: fresh_def)
  have ne: "c \<noteq> pr" using c p by auto
  have e: "extends h0 (h[pr := PointsCell (f ps)])"
    using extends_update [OF assms(1) ge(1)] .
  have c': "cell_at (h[pr := PointsCell (f ps)]) c = Some (ShapeCell pr sr n k cl)"
    using c ne by (simp add: cell_at_update)
  have f': "fresh (length h0) c (h[pr := PointsCell (f ps)])"
    unfolding fresh_def using c' ge sg by (auto simp: cell_at_update split: if_splits)
  show ?thesis using u e f' by simp
qed


lemma py_get_in_set: "py_get xs i = Inr x \<Longrightarrow> x \<in> set xs"
  by (auto simp: py_get_def py_in_range_def py_norm_def split: if_splits)

lemma mutate_inv:
  assumes "extends h0 h" "fresh (length h0) c h"
  shows "extends h0 (mutate m c h) \<and> fresh (length h0) c (mutate m c h)"
proof (cases "\<exists>pr sr n k cl. cell_at h c = Some (ShapeCell pr sr n k cl)")
  case False
  then have "mutate m c h = h"
    by (cases m) (auto simp: update_points_def split: option.splits cell.splits)
  then show ?thesis using assms by simp
next
  case True
  then obtain pr sr n k cl where c: "cell_at h c = Some (ShapeCell pr sr n k cl)" by blast
  have ge: "length h0 \<le> pr" "length h0 \<le> sr" "length h0 \<le> c"
    using assms(2) c by (auto simp: fresh_def)
  have sg: "\<And>ss. cell_at h sr = Some (SegmentsCell ss) \<Longrightarrow> \<forall>s\<in>set ss. length h0 \<le> s"
    using assms(2) c by (auto simp: fresh_def)
  have lh: "length h0 \<le> length h" using assms(1) by (rule extends_length)
  have cl: "c < length h" using c by (rule cell_at_Some_less)
  show ?thesis
  proof (cases m)
    case (PointsAppend p)
    then show ?thesis using update_points_inv [OF assms] by simp
  next
    case (PointsInsert i p)
    then show ?thesis using update_points_inv [OF assms] by simp
  next
    case (PointsPop i)
    then show ?thesis using update_points_inv [OF assms] by simp
  next
    case (PointsSetItem i p)
    then show ?thesis using update_points_inv [OF assms] by simp
  next
    case (PointsRebind ps')
    let ?h' = "(h @ [PointsCell ps'])[c := ShapeCell (length h) sr n k cl]"
    have u: "mutate m c h = ?h'" using PointsRebind c by simp
    have e: "extends h0 ?h'"
      using extends_update [OF extends_append [OF assms(1)] ge(3)] .
    have c': "cell_at ?h' c = Some (ShapeCell (length h) sr n k cl)"
      using cl by (simp add: cell_at_update)
    have f: "fresh (length h0) c ?h'"
      unfolding fresh_def using c' ge sg lh
      by (auto simp: cell_at_update cell_at_append1 split: if_splits)
    show ?thesis using u e f by simp
  next
    case (SegmentsAppend b l)
    show ?thesis
    proof (cases "\<exists>ss. cell_at h sr = Some (SegmentsCell ss)")
      case False
      then have "mutate m c h = h"
        using SegmentsAppend c by (auto split: option.splits cell.splits)
      then show ?thesis using assms by simp
    next
      case True
      then obtain ss where s: "cell_at h sr = Some (SegmentsCell ss)" by blast
      let ?h' = "(h @ [SegmentCell b l])[sr := SegmentsCell (ss @ [length h])]"
      have u: "mutate m c h = ?h'" using SegmentsAppend c s by simp
      have e: "extends h0 ?h'"
        using extends_update [OF extends_append [OF assms(1)] ge(2)] .
      have ne: "c \<noteq> sr" using c s by auto
      have sl: "sr < length h" using s by (rule cell_at_Some_less)
      have c': "cell_at ?h' c = Some (ShapeCell pr sr n k cl)"
        using c ne cl by (simp add: cell_at_update cell_at_append1)
      have s': "cell_at ?h' sr = Some (SegmentsCell (ss @ [length h]))"
        using sl by (simp add: cell_at_update)
      have f: "fresh (length h0) c ?h'"
        unfolding fresh_def using c' s' ge sg [OF s] lh by auto
      show ?thesis using u e f by simp
    qed
  next
    case (SegmentIncrement i)
    show ?thesis
    proof (cases "\<exists>ss s b l. cell_at h sr = Some (SegmentsCell ss) \<and> py_get ss i = Inr s
                     \<and> cell_at h s = Some (SegmentCell b l)")
      case False
      then have "mutate m c h = h"
        using SegmentIncrement c by (auto split: option.splits cell.splits sum.splits)
      then show ?thesis using assms by simp
    next
      case True
      then obtain ss s b l where s: "cell_at h sr = Some (SegmentsCell ss)"
        and g: "py_get ss i = Inr s" and sc: "cell_at h s = Some (SegmentCell b l)" by blast
      let ?h' = "h[s := SegmentCell b (l + 1)]"
      have u: "mutate m c h = ?h'" using SegmentIncrement c s g sc by simp
      have sge: "length h0 \<le> s" using sg [OF s] py_get_in_set [OF g] by blast
      have e: "extends h0 ?h'" using extends_update [OF assms(1) sge] .
      have ne: "c \<noteq> s" "sr \<noteq> s" using c s sc by auto
      have c': "cell_at ?h' c = Some (ShapeCell pr sr n k cl)"
        using c ne by (simp add: cell_at_update)
      have s': "cell_at ?h' sr = Some (SegmentsCell ss)"
        using s ne by (simp add: cell_at_update)
      have f: "fresh (length h0) c ?h'"
        unfolding fresh_def using c' s' ge sg [OF s] by auto
      show ?thesis using u e f by simp
    qed
  next
    case (SetCounter n')
    let ?h' = "h[c := ShapeCell pr sr n' k cl]"
    have u: "mutate m c h = ?h'" using SetCounter c by simp
    have e: "extends h0 ?h'" using extends_update [OF assms(1) ge(3)] .
    have c': "cell_at ?h' c = Some (ShapeCell pr sr n' k cl)"
      using cl by (simp add: cell_at_update)
    have f: "fresh (length h0) c ?h'"
      unfolding fresh_def using c' ge sg
      by (auto simp: cell_at_update split: if_splits)
    show ?thesis using u e f by simp
  next
    case (SetClosed c'')
    let ?h' = "h[c := ShapeCell pr sr n k c'']"
    have u: "mutate m c h = ?h'" using SetClosed c by simp
    have e: "extends h0 ?h'" using extends_update [OF assms(1) ge(3)] .
    have c': "cell_at ?h' c = Some (ShapeCell pr sr n k c'')"
      using cl by (simp add: cell_at_update)
    have f: "fresh (length h0) c ?h'"
      unfolding fresh_def using c' ge sg
      by (auto simp: cell_at_update split: if_splits)
    show ?thesis using u e f by simp
  qed
qed

lemma mutates_inv:
  "extends h0 h \<Longrightarrow> fresh (length h0) c h \<Longrightarrow>
   extends h0 (mutates ms c h) \<and> fresh (length h0) c (mutates ms c h)"
proof (induction ms arbitrary: h)
  case Nil
  then show ?case by simp
next
  case (Cons m ms)
  from mutate_inv [OF Cons.prems, of m]
  have "extends h0 (mutate m c h)" "fresh (length h0) c (mutate m c h)" by simp_all
  from Cons.IH [OF this] show ?case by simp
qed

lemma load_segments_less:
  "load_segments h ss = Some segs \<Longrightarrow> \<forall>s\<in>set ss. s < length h"
proof (induction ss arbitrary: segs)
  case Nil
  then show ?case by simp
next
  case (Cons s ss)
  from Cons.prems obtain seg rest where
    s: "segment_at h s = Some seg" and r: "load_segments h ss = Some rest"
    by (auto split: option.splits)
  obtain b l where "seg = (b, l)" by (cases seg)
  with s have "cell_at h s = Some (SegmentCell b l)" by (simp add: segment_at_SomeD)
  then have "s < length h" by (rule cell_at_Some_less)
  then show ?case using Cons.IH [OF r] by simp
qed

lemma containers_disjoint:
  assumes "load_shape h0 a = Some v" "extends h0 h" "fresh (length h0) c h"
  shows "containers h c \<inter> containers h a = {}"
proof -
  from load_shape_SomeD [OF assms(1)] obtain pr sr ss where
    a: "cell_at h0 a = Some (ShapeCell pr sr (points_in_segments v) (shape_type v) (closed v))"
    and p: "cell_at h0 pr = Some (PointsCell (points v))"
    and s: "cell_at h0 sr = Some (SegmentsCell ss)"
    and l: "load_segments h0 ss = Some (segments v)"
    by blast
  have lt: "pr < length h0" "sr < length h0" "\<forall>s\<in>set ss. s < length h0"
    using cell_at_Some_less [OF p] cell_at_Some_less [OF s] load_segments_less [OF l] by simp_all
  have ca: "containers h a = {pr, sr} \<union> set ss"
    using cell_at_extends [OF assms(2) a] cell_at_extends [OF assms(2) s]
    by (simp add: containers_def)
  have cc: "\<forall>x\<in>containers h c. length h0 \<le> x"
    using assms(3) unfolding fresh_def containers_def
    by (auto split: option.splits cell.splits)
  show ?thesis using ca cc lt by fastforce
qed

text \<open>
  C9. For a shape object \<open>a\<close> that denotes the value \<open>v\<close>, \<open>copy\<close> returns a new object that
  denotes the same value and leaves \<open>a\<close> as it is; the copy shares no container with the
  original; and after any sequence of mutating statements executed on the copy, the original
  still denotes \<open>v\<close>, points and segments included, and still shares no container with it.
\<close>

theorem copy_independent:
  "load_shape h a = Some v \<Longrightarrow>
   (\<exists>c h1. copy a h = Some (c, h1)
      \<and> load_shape h1 c = Some v
      \<and> load_shape h1 a = Some v
      \<and> containers h1 c \<inter> containers h1 a = {}
      \<and> (\<forall>ms. load_shape (mutates ms c h1) a = Some v
              \<and> containers (mutates ms c h1) c \<inter> containers (mutates ms c h1) a = {}))"
proof -
  assume l: "load_shape h a = Some v"
  from copy_fresh [OF l] obtain c h1 where cp: "copy a h = Some (c, h1)"
    and x: "extends h h1" and lc: "load_shape h1 c = Some v" and f: "fresh (length h) c h1"
    by blast
  have la: "load_shape h1 a = Some v" using load_shape_extends [OF x l] .
  have d: "containers h1 c \<inter> containers h1 a = {}" using containers_disjoint [OF l x f] .
  have m: "\<forall>ms. load_shape (mutates ms c h1) a = Some v
              \<and> containers (mutates ms c h1) c \<inter> containers (mutates ms c h1) a = {}"
  proof
    fix ms
    from mutates_inv [OF x f, of ms]
    have x': "extends h (mutates ms c h1)" and f': "fresh (length h) c (mutates ms c h1)"
      by simp_all
    show "load_shape (mutates ms c h1) a = Some v
              \<and> containers (mutates ms c h1) c \<inter> containers (mutates ms c h1) a = {}"
      using load_shape_extends [OF x' l] containers_disjoint [OF l x' f'] by simp
  qed
  show ?thesis using cp lc la d m by blast
qed


theorem copy_independent_witness:
  "load_shape
     [ShapeCell 1 2 3 curve False,
      PointsCell [QPointF 0 0, QPointF 1 1, QPointF 1 0, QPointF 2 0],
      SegmentsCell [3], SegmentCell 0 3] 0
     = Some \<lparr>points = [QPointF 0 0, QPointF 1 1, QPointF 1 0, QPointF 2 0], segments = [(0, 3)],
              points_in_segments = 3, shape_type = curve, closed = False\<rparr>
   \<and> copy 0
     [ShapeCell 1 2 3 curve False,
      PointsCell [QPointF 0 0, QPointF 1 1, QPointF 1 0, QPointF 2 0],
      SegmentsCell [3], SegmentCell 0 3]
     = Some (7,
        [ShapeCell 1 2 3 curve False,
         PointsCell [QPointF 0 0, QPointF 1 1, QPointF 1 0, QPointF 2 0],
         SegmentsCell [3], SegmentCell 0 3,
         PointsCell [QPointF 0 0, QPointF 1 1, QPointF 1 0, QPointF 2 0],
         SegmentCell 0 3, SegmentsCell [5], ShapeCell 4 6 3 curve False])
   \<and> load_shape
       (mutates [PointsAppend (QPointF 9 9), SegmentIncrement 0, PointsPop 0, SegmentsAppend 2 3,
                 SetCounter 6, PointsSetItem (- 1) (QPointF 7 7)] 7
         [ShapeCell 1 2 3 curve False,
          PointsCell [QPointF 0 0, QPointF 1 1, QPointF 1 0, QPointF 2 0],
          SegmentsCell [3], SegmentCell 0 3,
          PointsCell [QPointF 0 0, QPointF 1 1, QPointF 1 0, QPointF 2 0],
          SegmentCell 0 3, SegmentsCell [5], ShapeCell 4 6 3 curve False]) 0
     = Some \<lparr>points = [QPointF 0 0, QPointF 1 1, QPointF 1 0, QPointF 2 0], segments = [(0, 3)],
              points_in_segments = 3, shape_type = curve, closed = False\<rparr>
   \<and> load_shape
       (mutates [PointsAppend (QPointF 9 9), SegmentIncrement 0, PointsPop 0, SegmentsAppend 2 3,
                 SetCounter 6, PointsSetItem (- 1) (QPointF 7 7)] 7
         [ShapeCell 1 2 3 curve False,
          PointsCell [QPointF 0 0, QPointF 1 1, QPointF 1 0, QPointF 2 0],
          SegmentsCell [3], SegmentCell 0 3,
          PointsCell [QPointF 0 0, QPointF 1 1, QPointF 1 0, QPointF 2 0],
          SegmentCell 0 3, SegmentsCell [5], ShapeCell 4 6 3 curve False]) 7
     = Some \<lparr>points = [QPointF 1 1, QPointF 1 0, QPointF 2 0, QPointF 7 7],
              segments = [(0, 4), (2, 3)],
              points_in_segments = 6, shape_type = curve, closed = False\<rparr>"
  using copy_independent [of "[ShapeCell 1 2 3 curve False,
      PointsCell [QPointF 0 0, QPointF 1 1, QPointF 1 0, QPointF 2 0],
      SegmentsCell [3], SegmentCell 0 3]" 0
      "\<lparr>points = [QPointF 0 0, QPointF 1 1, QPointF 1 0, QPointF 2 0], segments = [(0, 3)],
              points_in_segments = 3, shape_type = curve, closed = False\<rparr>"]
  by (simp add: load_shape_def copy_def alloc_def cell_at_def segment_at_def update_points_def
      py_get_def py_set_def py_pop_def py_in_range_def py_norm_def Py_ssize_t_def nth_append)

end
